theory Spec2Isabelle
  imports Main "HOL-Library.Word" "HOL-Library.Monad_Syntax"
begin

section \<open>The cyclic buffer of cyclicbuffer.h and cyclicbuffer.cpp\<close>

text \<open>
  The class \<^verbatim>\<open>CyclicBuffer\<close> owns a block of bytes and five \<^verbatim>\<open>unsigned int\<close>
  fields. The embedding keeps the C++ types: a byte is an 8-bit word, an
  \<^verbatim>\<open>unsigned int\<close> is a 32-bit word whose arithmetic wraps around, and the block
  that the pointer \<^verbatim>\<open>buffer\<close> refers to is the list of its bytes, whose length is the
  number of bytes really allocated (which the class mirrors in \<^verbatim>\<open>buffer_size\<close>).
\<close>

type_synonym byte = "8 word"
type_synonym uint = "32 word"

datatype buffer_error =
    BUFFER_OK
  | BUFFER_INVALID_SIZE
  | BUFFER_ALLOCATION_ERROR
  | BUFFER_INDEX_GREATER
  | BUFFER_INDEX_LESS
  | BUFFER_INDEX_COLLISION_LESS
  | BUFFER_INDEX_COLLISION_GREATER
  | BUFFER_INCORRECT_SIZE
  | BUFFER_INDEX_OUT_OF_RANGE
  | BUFFER_UNDEFINED_ERROR

text \<open>The numeric values of the enumeration, as the header assigns them.\<close>

fun error_value :: "buffer_error \<Rightarrow> int" where
  "error_value BUFFER_OK = 0"
| "error_value BUFFER_INVALID_SIZE = 1"
| "error_value BUFFER_ALLOCATION_ERROR = 2"
| "error_value BUFFER_INDEX_GREATER = 3"
| "error_value BUFFER_INDEX_LESS = 4"
| "error_value BUFFER_INDEX_COLLISION_LESS = 5"
| "error_value BUFFER_INDEX_COLLISION_GREATER = 6"
| "error_value BUFFER_INCORRECT_SIZE = 7"
| "error_value BUFFER_INDEX_OUT_OF_RANGE = 8"
| "error_value BUFFER_UNDEFINED_ERROR = 999"

record CyclicBuffer =
  buffer_error_code :: buffer_error
  buffer :: "byte list"
  buffer_size :: uint
  top_index :: uint
  bottom_index :: uint
  write_ptr :: uint
  read_ptr :: uint

subsection \<open>Memory accesses\<close>

text \<open>
  \<^verbatim>\<open>buffer[i]\<close> is defined in C++ only for an index inside the allocated block. An
  operation of the model returns \<open>None\<close> where the C++ call has no defined result:
  it reads or writes a byte outside the block, or one of its loops never ends.
\<close>

definition load :: "byte list \<Rightarrow> uint \<Rightarrow> byte option" where
  "load m i = (if unat i < length m then Some (m ! unat i) else None)"

definition store :: "byte list \<Rightarrow> uint \<Rightarrow> byte \<Rightarrow> byte list option" where
  "store m i v = (if unat i < length m then Some (m[unat i := v]) else None)"

text \<open>
  The loop \<^verbatim>\<open>for(unsigned int i = lo; i <= hi; i++) buffer[i] = (unsigned char)NULL;\<close>
  of \<^verbatim>\<open>SetTopIndex\<close>, \<^verbatim>\<open>SetBottomIndex\<close> and \<^verbatim>\<open>ResetBuffer\<close>. The counter is a 32-bit
  word: with \<open>hi = 2^32 - 1\<close> the test never fails.
\<close>

partial_function (option) zero_le_loop :: "uint \<Rightarrow> uint \<Rightarrow> byte list \<Rightarrow> byte list option" where
  "zero_le_loop i hi m =
     (if i \<le> hi then
        (case store m i 0 of
           None \<Rightarrow> None
         | Some m' \<Rightarrow> zero_le_loop (i + 1) hi m')
      else Some m)"

text \<open>
  The loop \<^verbatim>\<open>for(unsigned int i = lo; i < hi; i++) buffer[i] = (unsigned char)NULL;\<close>
  of \<^verbatim>\<open>ClearBuffer\<close>. Below \<open>hi\<close> the increment cannot wrap, so the loop always ends.
\<close>

function zero_lt_loop :: "uint \<Rightarrow> uint \<Rightarrow> byte list \<Rightarrow> byte list option" where
  "zero_lt_loop i hi m =
     (if i < hi then
        (case store m i 0 of
           None \<Rightarrow> None
         | Some m' \<Rightarrow> zero_lt_loop (i + 1) hi m')
      else Some m)"
  by pat_completeness auto
termination
proof (relation "measure (\<lambda>(i, hi, m). unat hi - unat i)")
  show "wf (measure (\<lambda>(i, hi, m). unat hi - unat i))"
    by simp
next
  fix i hi :: uint and m x2 :: "byte list"
  assume less: "i < hi"
  then have "unat i < unat hi"
    by (simp add: word_less_nat_alt)
  moreover have "unat hi < 2 ^ LENGTH(32)"
    by (rule unsigned_less)
  ultimately have "unat i + unat (1 :: uint) < 2 ^ LENGTH(32)"
    by simp
  then have "unat (i + 1) = unat i + 1"
    by (simp add: unat_add_lem [THEN iffD1])
  with \<open>unat i < unat hi\<close>
  show "((i + 1, hi, x2), (i, hi, m)) \<in> measure (\<lambda>(i, hi, m). unat hi - unat i)"
    by simp
qed

subsection \<open>The operations\<close>

text \<open>
  \<^verbatim>\<open>ClearBuffer\<close> (cyclicbuffer.cpp, lines 226-232): the loop runs over
  \<^verbatim>\<open>i = bottom_index; i < top_index\<close>.
\<close>

definition ClearBuffer :: "CyclicBuffer \<Rightarrow> CyclicBuffer option" where
  "ClearBuffer s =
     do {
       m \<leftarrow> zero_lt_loop (bottom_index s) (top_index s) (buffer s);
       Some (s\<lparr>buffer := m\<rparr>)
     }"

text \<open>
  The constructor (lines 3-33). Its arguments are \<^verbatim>\<open>buf_size\<close>, the integer that
  \<^verbatim>\<open>success\<close> points to before the call, and the outcome of
  \<^verbatim>\<open>new unsigned char[buf_size]\<close>: \<open>None\<close> for a null pointer, \<open>Some fresh\<close> for a new
  block whose byte at position \<open>k\<close> is \<open>fresh k\<close> (C++ does not initialise it). The
  result is the integer that \<^verbatim>\<open>success\<close> points to after the call, and the object when
  the constructor ran to its end; after an early return every field but
  \<^verbatim>\<open>buffer_error_code\<close> is uninitialised, and the model returns no object. The two
  cursors are assigned after \<^verbatim>\<open>ClearBuffer\<close>, which reads neither of them.
\<close>

definition CyclicBuffer_ctor ::
    "uint \<Rightarrow> int \<Rightarrow> (nat \<Rightarrow> byte) option \<Rightarrow> (int \<times> CyclicBuffer option) option" where
  "CyclicBuffer_ctor buf_size success new_block =
     (if buf_size = 0 then Some (error_value BUFFER_INVALID_SIZE, None)
      else
        (case new_block of
           None \<Rightarrow> Some (error_value BUFFER_ALLOCATION_ERROR, None)
         | Some fresh \<Rightarrow>
             do {
               s \<leftarrow> ClearBuffer
                     \<lparr>buffer_error_code = BUFFER_UNDEFINED_ERROR,
                      buffer = map fresh [0 ..< unat buf_size],
                      buffer_size = buf_size,
                      top_index = buf_size - 1,
                      bottom_index = 0,
                      write_ptr = 0,
                      read_ptr = 0\<rparr>;
               Some (success, Some (s\<lparr>write_ptr := 0, read_ptr := 0\<rparr>))
             }))"

text \<open>\<^verbatim>\<open>Push\<close> (lines 35-40).\<close>

definition Push :: "byte \<Rightarrow> CyclicBuffer \<Rightarrow> CyclicBuffer option" where
  "Push ch s =
     do {
       m \<leftarrow> store (buffer s) (write_ptr s) ch;
       let w = write_ptr s + 1;
       Some (s\<lparr>buffer := m,
               write_ptr := (if w > top_index s then bottom_index s else w)\<rparr>)
     }"

text \<open>\<^verbatim>\<open>Pop\<close> (lines 42-56); \<^verbatim>\<open>(unsigned char)NULL\<close> is the byte 0.\<close>

definition Pop :: "CyclicBuffer \<Rightarrow> (byte \<times> CyclicBuffer) option" where
  "Pop s =
     (if read_ptr s = write_ptr s then Some (0, s)
      else if read_ptr s = top_index s then
        do {
          v \<leftarrow> load (buffer s) (top_index s);
          Some (v, s\<lparr>read_ptr := bottom_index s\<rparr>)
        }
      else
        do {
          v \<leftarrow> load (buffer s) (read_ptr s);
          Some (v, s\<lparr>read_ptr := read_ptr s + 1\<rparr>)
        })"

text \<open>\<^verbatim>\<open>SetPopIndex\<close> (lines 58-75) and \<^verbatim>\<open>SetPushIndex\<close> (lines 77-94).\<close>

definition SetPopIndex :: "uint \<Rightarrow> CyclicBuffer \<Rightarrow> buffer_error \<times> CyclicBuffer" where
  "SetPopIndex index s =
     (if index > top_index s then
        (BUFFER_INDEX_GREATER, s\<lparr>buffer_error_code := BUFFER_INDEX_GREATER\<rparr>)
      else if index < bottom_index s then
        (BUFFER_INDEX_LESS, s\<lparr>buffer_error_code := BUFFER_INDEX_LESS\<rparr>)
      else (BUFFER_OK, s\<lparr>read_ptr := index, buffer_error_code := BUFFER_OK\<rparr>))"

definition SetPushIndex :: "uint \<Rightarrow> CyclicBuffer \<Rightarrow> buffer_error \<times> CyclicBuffer" where
  "SetPushIndex index s =
     (if index > top_index s then
        (BUFFER_INDEX_GREATER, s\<lparr>buffer_error_code := BUFFER_INDEX_GREATER\<rparr>)
      else if index < bottom_index s then
        (BUFFER_INDEX_LESS, s\<lparr>buffer_error_code := BUFFER_INDEX_LESS\<rparr>)
      else (BUFFER_OK, s\<lparr>write_ptr := index, buffer_error_code := BUFFER_OK\<rparr>))"

text \<open>\<^verbatim>\<open>SetTopIndex\<close> (lines 96-130).\<close>

definition SetTopIndex :: "uint \<Rightarrow> CyclicBuffer \<Rightarrow> (buffer_error \<times> CyclicBuffer) option" where
  "SetTopIndex index s =
     (if index > buffer_size s - 1 then
        Some (BUFFER_INDEX_GREATER, s\<lparr>buffer_error_code := BUFFER_INDEX_GREATER\<rparr>)
      else if index < bottom_index s then
        Some (BUFFER_INDEX_COLLISION_LESS,
              s\<lparr>buffer_error_code := BUFFER_INDEX_COLLISION_LESS\<rparr>)
      else
        do {
          m \<leftarrow> (if top_index s < index
                then zero_le_loop (top_index s + 1) index (buffer s)
                else Some (buffer s));
          let s1 = s\<lparr>buffer := m, top_index := index\<rparr>;
          let s2 = (if write_ptr s1 > top_index s1
                    then s1\<lparr>write_ptr := bottom_index s1\<rparr> else s1);
          let s3 = (if read_ptr s2 > top_index s2
                    then s2\<lparr>read_ptr := bottom_index s2\<rparr> else s2);
          Some (BUFFER_OK, s3\<lparr>buffer_error_code := BUFFER_OK\<rparr>)
        })"

text \<open>\<^verbatim>\<open>SetBottomIndex\<close> (lines 132-166).\<close>

definition SetBottomIndex :: "uint \<Rightarrow> CyclicBuffer \<Rightarrow> (buffer_error \<times> CyclicBuffer) option" where
  "SetBottomIndex index s =
     (if index > buffer_size s - 1 then
        Some (BUFFER_INDEX_GREATER, s\<lparr>buffer_error_code := BUFFER_INDEX_GREATER\<rparr>)
      else if index > top_index s then
        Some (BUFFER_INDEX_COLLISION_GREATER,
              s\<lparr>buffer_error_code := BUFFER_INDEX_COLLISION_GREATER\<rparr>)
      else
        do {
          m \<leftarrow> (if index < bottom_index s
                then zero_le_loop index (bottom_index s - 1) (buffer s)
                else Some (buffer s));
          let s1 = s\<lparr>buffer := m, bottom_index := index\<rparr>;
          let s2 = (if write_ptr s1 < bottom_index s1
                    then s1\<lparr>write_ptr := bottom_index s1\<rparr> else s1);
          let s3 = (if read_ptr s2 < bottom_index s2
                    then s2\<lparr>read_ptr := bottom_index s2\<rparr> else s2);
          Some (BUFFER_OK, s3\<lparr>buffer_error_code := BUFFER_OK\<rparr>)
        })"

text \<open>
  \<^verbatim>\<open>realloc\<close> keeps the bytes up to the smaller of the old and the new size; the
  bytes it adds are not initialised (\<open>fresh k\<close> stands for the byte at position \<open>k\<close>).
\<close>

definition realloc_block :: "byte list \<Rightarrow> nat \<Rightarrow> (nat \<Rightarrow> byte) \<Rightarrow> byte list" where
  "realloc_block m n fresh = take n m @ map fresh [length m ..< n]"

text \<open>
  \<^verbatim>\<open>ReallocBuffer\<close> (lines 168-215). The second argument is the outcome of
  \<^verbatim>\<open>realloc\<close>: \<open>None\<close> for a null pointer (the old block stays as it is), \<open>Some fresh\<close>
  for a block of the new size.
\<close>

definition ReallocBuffer ::
    "uint \<Rightarrow> (nat \<Rightarrow> byte) option \<Rightarrow> CyclicBuffer \<Rightarrow> buffer_error \<times> CyclicBuffer" where
  "ReallocBuffer new_size realloc_result s =
     (if new_size = 0 then
        (BUFFER_INCORRECT_SIZE, s\<lparr>buffer_error_code := BUFFER_INCORRECT_SIZE\<rparr>)
      else if new_size = buffer_size s then
        (BUFFER_OK, s\<lparr>buffer_error_code := BUFFER_OK\<rparr>)
      else
        (case realloc_result of
           None \<Rightarrow>
             (BUFFER_ALLOCATION_ERROR, s\<lparr>buffer_error_code := BUFFER_ALLOCATION_ERROR\<rparr>)
         | Some fresh \<Rightarrow>
             (let s1 = s\<lparr>buffer := realloc_block (buffer s) (unat new_size) fresh,
                         buffer_size := new_size\<rparr>;
                  highest_index = buffer_size s1 - 1;
                  s2 = (if top_index s1 > highest_index
                        then s1\<lparr>top_index := highest_index\<rparr> else s1);
                  s3 = (if bottom_index s2 > highest_index
                        then s2\<lparr>bottom_index := highest_index\<rparr> else s2);
                  s4 = (if read_ptr s3 > highest_index
                        then s3\<lparr>read_ptr := bottom_index s3\<rparr> else s3);
                  s5 = (if write_ptr s4 > highest_index
                        then s4\<lparr>write_ptr := 0\<rparr> else s4)
              in (BUFFER_OK, s5\<lparr>buffer_error_code := BUFFER_OK\<rparr>))))"

text \<open>\<^verbatim>\<open>ResetBuffer\<close> (lines 217-224).\<close>

definition ResetBuffer :: "CyclicBuffer \<Rightarrow> CyclicBuffer option" where
  "ResetBuffer s =
     do {
       let s1 = s\<lparr>top_index := buffer_size s - 1,
                   read_ptr := 0, write_ptr := 0, bottom_index := 0\<rparr>;
       m \<leftarrow> zero_le_loop 0 (top_index s1) (buffer s1);
       Some (s1\<lparr>buffer := m\<rparr>)
     }"

text \<open>
  The local variable \<^verbatim>\<open>index_t\<close> of \<^verbatim>\<open>GetValueAt\<close> and \<^verbatim>\<open>SetValueAt\<close> (lines 236-240
  and 255-259): \<^verbatim>\<open>index_t += bottom_index\<close> is an addition of \<^verbatim>\<open>unsigned int\<close>.
\<close>

definition index_t :: "uint \<Rightarrow> bool \<Rightarrow> CyclicBuffer \<Rightarrow> uint" where
  "index_t index use_offset s = (if use_offset then index + bottom_index s else index)"

text \<open>\<^verbatim>\<open>GetValueAt\<close> (lines 234-251).\<close>

definition GetValueAt :: "uint \<Rightarrow> bool \<Rightarrow> bool \<Rightarrow> CyclicBuffer \<Rightarrow> byte option" where
  "GetValueAt index use_offset look_outside_borders s =
     (let i = index_t index use_offset s in
      if i \<ge> buffer_size s then Some 0
      else if \<not> look_outside_borders \<and> (i > top_index s \<or> i < bottom_index s) then Some 0
      else load (buffer s) i)"

text \<open>\<^verbatim>\<open>SetValueAt\<close> (lines 253-272). No branch assigns \<^verbatim>\<open>buffer_error_code\<close>.\<close>

definition SetValueAt ::
    "uint \<Rightarrow> byte \<Rightarrow> bool \<Rightarrow> bool \<Rightarrow> CyclicBuffer \<Rightarrow> (buffer_error \<times> CyclicBuffer) option" where
  "SetValueAt index val use_offset look_outside_borders s =
     (let i = index_t index use_offset s in
      if i \<ge> buffer_size s then Some (BUFFER_INDEX_OUT_OF_RANGE, s)
      else if \<not> look_outside_borders \<and> (i > top_index s \<or> i < bottom_index s)
        then Some (BUFFER_INDEX_OUT_OF_RANGE, s)
      else
        do {
          m \<leftarrow> store (buffer s) i val;
          Some (BUFFER_OK, s\<lparr>buffer := m\<rparr>)
        })"

text \<open>The accessors of the header.\<close>

definition GetTotalBufferSize :: "CyclicBuffer \<Rightarrow> uint" where
  "GetTotalBufferSize s = buffer_size s"

definition GetBufferSize :: "CyclicBuffer \<Rightarrow> uint" where
  "GetBufferSize s = (top_index s - bottom_index s) + 1"

definition GetPopIndex :: "CyclicBuffer \<Rightarrow> uint" where
  "GetPopIndex s = read_ptr s"

definition GetPushIndex :: "CyclicBuffer \<Rightarrow> uint" where
  "GetPushIndex s = write_ptr s"

definition GetBottomIndex :: "CyclicBuffer \<Rightarrow> uint" where
  "GetBottomIndex s = bottom_index s"

definition GetTopIndex :: "CyclicBuffer \<Rightarrow> uint" where
  "GetTopIndex s = top_index s"

text \<open>The unfolding equation of the \<open>\<le>\<close> loop, so that it can be evaluated.\<close>

declare zero_le_loop.simps [code]

subsection \<open>Callers, well-formed states and example states\<close>

text \<open>A caller that writes the bytes of a list one after the other.\<close>

fun Push_all :: "byte list \<Rightarrow> CyclicBuffer \<Rightarrow> CyclicBuffer option" where
  "Push_all [] s = Some s"
| "Push_all (ch # chs) s = do { s' \<leftarrow> Push ch s; Push_all chs s' }"

text \<open>A caller that reads \<open>n\<close> times and collects what \<^verbatim>\<open>Pop\<close> returned, in order.\<close>

fun Pop_n :: "nat \<Rightarrow> CyclicBuffer \<Rightarrow> (byte list \<times> CyclicBuffer) option" where
  "Pop_n 0 s = Some ([], s)"
| "Pop_n (Suc n) s =
     do {
       (v, s') \<leftarrow> Pop s;
       (vs, s'') \<leftarrow> Pop_n n s';
       Some (v # vs, s'')
     }"

text \<open>
  The block that \<^verbatim>\<open>buffer\<close> points to has \<^verbatim>\<open>buffer_size\<close> bytes, and there is at least
  one: the constructor and \<^verbatim>\<open>ReallocBuffer\<close> refuse the size 0.
\<close>

definition allocated :: "CyclicBuffer \<Rightarrow> bool" where
  "allocated s \<longleftrightarrow> buffer_size s \<noteq> 0 \<and> length (buffer s) = unat (buffer_size s)"

text \<open>The window lies inside the block: \<open>0 \<le> bottom_index \<le> top_index \<le> buffer_size - 1\<close>.\<close>

definition borders_ok :: "CyclicBuffer \<Rightarrow> bool" where
  "borders_ok s \<longleftrightarrow> bottom_index s \<le> top_index s \<and> top_index s \<le> buffer_size s - 1"

text \<open>Both cursors lie inside the window.\<close>

definition cursors_ok :: "CyclicBuffer \<Rightarrow> bool" where
  "cursors_ok s \<longleftrightarrow>
     bottom_index s \<le> write_ptr s \<and> write_ptr s \<le> top_index s \<and>
     bottom_index s \<le> read_ptr s \<and> read_ptr s \<le> top_index s"

definition well_formed :: "CyclicBuffer \<Rightarrow> bool" where
  "well_formed s \<longleftrightarrow> allocated s \<and> borders_ok s \<and> cursors_ok s"

text \<open>
  The index of the cell that a cursor reaches after \<open>k\<close> steps from the bottom of a window
  on the indices \<open>b\<close> to \<open>t\<close>, when each step past \<open>t\<close> leads back to \<open>b\<close>.
\<close>

definition cell :: "nat \<Rightarrow> nat \<Rightarrow> nat \<Rightarrow> nat" where
  "cell b t k = b + k mod (t - b + 1)"

text \<open>
  A buffer of 10 bytes holding the letters a to j, with the window on the indices 3 to 8,
  the write cursor on 7 and the read cursor on 3.
\<close>

definition inner_window :: CyclicBuffer where
  "inner_window =
     \<lparr>buffer_error_code = BUFFER_OK,
      buffer = [0x61, 0x62, 0x63, 0x64, 0x65, 0x66, 0x67, 0x68, 0x69, 0x6A],
      buffer_size = 10, top_index = 8, bottom_index = 3, write_ptr = 7, read_ptr = 3\<rparr>"

text \<open>The same buffer when everything written has been read: both cursors on 7.\<close>

definition drained_window :: CyclicBuffer where
  "drained_window = inner_window\<lparr>read_ptr := 7\<rparr>"

text \<open>The first buffer with the letter X stored on the index 4.\<close>

definition patched_window :: CyclicBuffer where
  "patched_window =
     inner_window\<lparr>buffer := [0x61, 0x62, 0x63, 0x64, 0x58, 0x66, 0x67, 0x68, 0x69, 0x6A]\<rparr>"

section \<open>Properties\<close>

subsection \<open>Words and loops\<close>

text \<open>Below \<open>2^32 - 1\<close> the increment of an \<^verbatim>\<open>unsigned int\<close> does not wrap.\<close>

lemma unat_inc: "unat (p :: uint) < 2 ^ 32 - 1 \<Longrightarrow> unat (p + 1) = unat p + 1"
proof -
  assume "unat p < 2 ^ 32 - 1"
  then have "unat p + unat (1 :: uint) < 2 ^ LENGTH(32)"
    by simp
  then show ?thesis
    by (simp add: unat_add_lem [THEN iffD1])
qed

text \<open>
  In an allocated buffer whose window lies inside the block, \<^verbatim>\<open>top_index\<close> is an index
  of the block and is less than \<open>2^32 - 1\<close>.
\<close>

lemma top_index_bound:
  assumes "allocated s" "borders_ok s"
  shows "unat (top_index s) < length (buffer s)" and "unat (top_index s) < 2 ^ 32 - 1"
    and "unat (bottom_index s) \<le> unat (top_index s)"
proof -
  from assms(1) have nz: "buffer_size s \<noteq> 0" and len: "length (buffer s) = unat (buffer_size s)"
    by (simp_all add: allocated_def)
  from nz have "unat (buffer_size s - 1) = unat (buffer_size s) - 1"
    by (simp add: unat_minus_one)
  moreover from nz have "0 < unat (buffer_size s)"
    by (simp add: unat_gt_0)
  moreover from assms(2) have "unat (top_index s) \<le> unat (buffer_size s - 1)"
    by (simp add: borders_ok_def word_le_nat_alt)
  moreover have "unat (buffer_size s) < 2 ^ LENGTH(32)"
    by (rule unsigned_less)
  ultimately show "unat (top_index s) < length (buffer s)" and "unat (top_index s) < 2 ^ 32 - 1"
    using len by simp_all
  from assms(2) show "unat (bottom_index s) \<le> unat (top_index s)"
    by (simp add: borders_ok_def word_le_nat_alt)
qed

lemma unat_GetBufferSize:
  assumes "allocated s" "borders_ok s"
  shows "unat (GetBufferSize s) = unat (top_index s) - unat (bottom_index s) + 1"
proof -
  note tb = top_index_bound [OF assms]
  from assms(2) have "bottom_index s \<le> top_index s"
    by (simp add: borders_ok_def)
  then have sub: "unat (top_index s - bottom_index s) = unat (top_index s) - unat (bottom_index s)"
    by (simp add: unat_sub)
  with tb(2) have "unat (top_index s - bottom_index s) < 2 ^ 32 - 1"
    by simp
  then show ?thesis
    unfolding GetBufferSize_def using sub by (simp add: unat_inc)
qed

text \<open>
  Both loops end without leaving the block when their upper bound is inside it, and
  they zero exactly the cells they run over.
\<close>

lemma zero_le_loop_cells:
  assumes "unat hi < length m" "unat hi < 2 ^ 32 - 1"
  shows "\<exists>m'. zero_le_loop i hi m = Some m' \<and> length m' = length m \<and>
           (\<forall>k < length m. m' ! k = (if unat i \<le> k \<and> k \<le> unat hi then 0 else m ! k))"
  using assms(1)
proof (induction "Suc (unat hi) - unat i" arbitrary: i m)
  case 0
  then have "\<not> i \<le> hi" and "unat hi < unat i"
    by (simp_all add: word_le_nat_alt)
  then show ?case
    by (subst zero_le_loop.simps) auto
next
  case (Suc n)
  from Suc.hyps(2) have le: "unat i \<le> unat hi"
    by simp
  then have ile: "i \<le> hi"
    by (simp add: word_le_nat_alt)
  from le assms(2) have inc: "unat (i + 1) = unat i + 1"
    by (simp add: unat_inc)
  from le Suc.prems have st: "store m i 0 = Some (m[unat i := 0])"
    by (simp add: store_def)
  have "n = Suc (unat hi) - unat (i + 1)"
    using Suc.hyps(2) inc by simp
  moreover have "unat hi < length (m[unat i := 0])"
    using Suc.prems by simp
  ultimately obtain m' where m': "zero_le_loop (i + 1) hi (m[unat i := 0]) = Some m'"
      "length m' = length (m[unat i := 0])"
      "\<forall>k < length (m[unat i := 0]).
         m' ! k = (if unat (i + 1) \<le> k \<and> k \<le> unat hi then 0 else m[unat i := 0] ! k)"
    using Suc.hyps(1) by blast
  have "m' ! k = (if unat i \<le> k \<and> k \<le> unat hi then 0 else m ! k)" if "k < length m" for k
    using m'(3) that inc le by (cases "k = unat i") auto
  then show ?case
    using ile st m'(1,2) by (subst zero_le_loop.simps) simp
qed

lemma zero_lt_loop_cells:
  assumes "unat hi \<le> length m"
  shows "\<exists>m'. zero_lt_loop i hi m = Some m' \<and> length m' = length m \<and>
           (\<forall>k < length m. m' ! k = (if unat i \<le> k \<and> k < unat hi then 0 else m ! k))"
  using assms
proof (induction i hi m rule: zero_lt_loop.induct)
  case (1 i hi m)
  show ?case
  proof (cases "i < hi")
    case False
    then have "\<not> unat i < unat hi"
      by (simp add: word_less_nat_alt)
    with False show ?thesis
      by auto
  next
    case True
    then have lt: "unat i < unat hi"
      by (simp add: word_less_nat_alt)
    moreover have "unat hi < 2 ^ LENGTH(32)"
      by (rule unsigned_less)
    ultimately have inc: "unat (i + 1) = unat i + 1"
      by (simp add: unat_inc)
    from lt "1.prems" have st: "store m i 0 = Some (m[unat i := 0])"
      by (simp add: store_def)
    from "1.IH" [OF True st] "1.prems"
    obtain m' where m': "zero_lt_loop (i + 1) hi (m[unat i := 0]) = Some m'"
        "length m' = length m"
        "\<forall>k < length m.
           m' ! k = (if unat (i + 1) \<le> k \<and> k < unat hi then 0 else m[unat i := 0] ! k)"
      by auto
    have "m' ! k = (if unat i \<le> k \<and> k < unat hi then 0 else m ! k)" if "k < length m" for k
      using m'(3) that inc lt by (cases "k = unat i") auto
    then show ?thesis
      using True st m'(1,2) by simp
  qed
qed

subsection \<open>Steps of a cursor\<close>

lemma cell_succ:
  assumes "b \<le> t"
  shows "(if cell b t k = t then b else cell b t k + 1) = cell b t (k + 1)"
proof -
  let ?W = "t - b + 1"
  have lt: "k mod ?W < ?W"
    by simp
  show ?thesis
  proof (cases "k mod ?W = t - b")
    case True
    then have "(k + 1) mod ?W = 0"
      by (metis Suc_eq_plus1 mod_Suc)
    with True assms show ?thesis
      by (simp add: cell_def)
  next
    case False
    with lt have "Suc (k mod ?W) \<noteq> ?W"
      by simp
    then have "(k + 1) mod ?W = k mod ?W + 1"
      by (simp add: mod_Suc)
    with False assms show ?thesis
      by (auto simp add: cell_def)
  qed
qed

lemma cell_distinct:
  assumes "j < n" "n - j < t - b + 1"
  shows "cell b t (k + j) \<noteq> cell b t (k + n)"
proof
  let ?W = "t - b + 1"
  assume "cell b t (k + j) = cell b t (k + n)"
  then have "(k + j) mod ?W = (k + n) mod ?W"
    by (simp add: cell_def)
  then have "?W dvd (k + n) - (k + j)"
    using assms(1) by (metis mod_eq_dvd_iff_nat add_le_cancel_left less_imp_le)
  then have "?W dvd n - j"
    by simp
  then have "?W \<le> n - j"
    using assms(1) by (simp add: dvd_imp_le)
  with assms(2) show False
    by simp
qed

lemma cell_bounds: "b \<le> t \<Longrightarrow> b \<le> cell b t k \<and> cell b t k \<le> t"
proof -
  assume "b \<le> t"
  moreover have "k mod (t - b + 1) < t - b + 1"
    by simp
  ultimately show ?thesis
    unfolding cell_def by linarith
qed

lemma cell_start: "b \<le> p \<Longrightarrow> p \<le> t \<Longrightarrow> cell b t (p - b) = p"
  by (simp add: cell_def)

lemma Push_step:
  assumes "allocated s" "borders_ok s"
    and "unat (write_ptr s) = cell (unat (bottom_index s)) (unat (top_index s)) k"
  shows "\<exists>w. Push ch s = Some (s\<lparr>buffer := (buffer s)[unat (write_ptr s) := ch], write_ptr := w\<rparr>) \<and>
           unat w = cell (unat (bottom_index s)) (unat (top_index s)) (k + 1)"
proof -
  let ?b = "unat (bottom_index s)" and ?t = "unat (top_index s)"
  note tb = top_index_bound [OF assms(1,2)]
  from cell_bounds [OF tb(3), of k] assms(3)
  have range: "?b \<le> unat (write_ptr s)" "unat (write_ptr s) \<le> ?t"
    by simp_all
  with tb have st: "store (buffer s) (write_ptr s) ch = Some ((buffer s)[unat (write_ptr s) := ch])"
    by (simp add: store_def)
  from range tb have inc: "unat (write_ptr s + 1) = unat (write_ptr s) + 1"
    by (simp add: unat_inc)
  let ?w = "if top_index s < write_ptr s + 1 then bottom_index s else write_ptr s + 1"
  have "unat ?w = (if cell ?b ?t k = ?t then ?b else cell ?b ?t k + 1)"
    using range inc assms(3) by (auto simp add: word_less_nat_alt)
  also have "\<dots> = cell ?b ?t (k + 1)"
    by (rule cell_succ [OF tb(3)])
  finally have "unat ?w = cell ?b ?t (k + 1)" .
  moreover have "Push ch s =
      Some (s\<lparr>buffer := (buffer s)[unat (write_ptr s) := ch], write_ptr := ?w\<rparr>)"
    using st by (simp add: Push_def Let_def)
  ultimately show ?thesis
    by blast
qed

lemma Pop_step:
  assumes "allocated s" "borders_ok s"
    and "unat (read_ptr s) = cell (unat (bottom_index s)) (unat (top_index s)) k"
    and "read_ptr s \<noteq> write_ptr s"
  shows "\<exists>r. Pop s = Some (buffer s ! unat (read_ptr s), s\<lparr>read_ptr := r\<rparr>) \<and>
           unat r = cell (unat (bottom_index s)) (unat (top_index s)) (k + 1)"
proof -
  let ?b = "unat (bottom_index s)" and ?t = "unat (top_index s)"
  note tb = top_index_bound [OF assms(1,2)]
  from cell_bounds [OF tb(3), of k] assms(3)
  have range: "?b \<le> unat (read_ptr s)" "unat (read_ptr s) \<le> ?t"
    by simp_all
  with tb have ld: "load (buffer s) (read_ptr s) = Some (buffer s ! unat (read_ptr s))"
    by (simp add: load_def)
  from range tb have inc: "unat (read_ptr s + 1) = unat (read_ptr s) + 1"
    by (simp add: unat_inc)
  let ?r = "if read_ptr s = top_index s then bottom_index s else read_ptr s + 1"
  have "unat ?r = (if cell ?b ?t k = ?t then ?b else cell ?b ?t k + 1)"
    using range inc assms(3) by (auto simp add: word_unat_eq_iff)
  also have "\<dots> = cell ?b ?t (k + 1)"
    by (rule cell_succ [OF tb(3)])
  finally have "unat ?r = cell ?b ?t (k + 1)" .
  moreover have "Pop s = Some (buffer s ! unat (read_ptr s), s\<lparr>read_ptr := ?r\<rparr>)"
    using ld assms(4) by (cases "read_ptr s = top_index s") (simp_all add: Pop_def)
  ultimately show ?thesis
    by blast
qed

subsection \<open>Writing and reading\<close>

text \<open>
  C9. In every state in which \<^verbatim>\<open>read_ptr\<close> equals \<^verbatim>\<open>write_ptr\<close>, \<^verbatim>\<open>Pop\<close> returns the
  byte 0 and leaves the whole state, both cursors included, as it was.
\<close>

theorem Pop_nothing_to_read:
  "read_ptr s = write_ptr s \<Longrightarrow> Pop s = Some (0, s)"
  by (simp add: Pop_def)

theorem Pop_nothing_to_read_witness:
  "read_ptr drained_window = write_ptr drained_window \<and>
   Pop drained_window = Some (0, drained_window)"
proof -
  have eq: "read_ptr drained_window = write_ptr drained_window"
    by (simp add: drained_window_def inner_window_def)
  show ?thesis
    using eq Pop_nothing_to_read [OF eq] by simp
qed

lemma Push_all_append:
  "Push_all (xs @ ys) s = Push_all xs s \<bind> Push_all ys"
proof (induction xs arbitrary: s)
  case Nil
  show ?case
    by simp
next
  case (Cons x xs)
  then show ?case
    by (cases "Push x s") simp_all
qed

text \<open>
  Writing the bytes \<open>chs\<close>, no more of them than the window has cells, from the cell
  \<open>k\<close> on: the write cursor ends on the cell \<open>k + length chs\<close>, the byte number \<open>j\<close> is
  in the cell \<open>k + j\<close>, and the size, the borders and the read cursor stay as they were.
\<close>

lemma Push_all_cells:
  assumes "allocated s" "borders_ok s"
    and "unat (write_ptr s) = cell (unat (bottom_index s)) (unat (top_index s)) k"
    and "length chs \<le> unat (top_index s) - unat (bottom_index s) + 1"
  shows "\<exists>s'. Push_all chs s = Some s' \<and>
           buffer_size s' = buffer_size s \<and> top_index s' = top_index s \<and>
           bottom_index s' = bottom_index s \<and> read_ptr s' = read_ptr s \<and>
           length (buffer s') = length (buffer s) \<and>
           unat (write_ptr s') =
             cell (unat (bottom_index s)) (unat (top_index s)) (k + length chs) \<and>
           (\<forall>j < length chs.
              buffer s' ! cell (unat (bottom_index s)) (unat (top_index s)) (k + j) = chs ! j)"
  using assms(4)
proof (induction chs rule: rev_induct)
  case Nil
  then show ?case
    using assms(3) by simp
next
  case (snoc ch chs)
  let ?b = "unat (bottom_index s)" and ?t = "unat (top_index s)"
  let ?n = "length chs"
  from snoc.prems have n: "?n < ?t - ?b + 1"
    by simp
  with snoc.IH obtain s1 where s1: "Push_all chs s = Some s1"
      "buffer_size s1 = buffer_size s" "top_index s1 = top_index s"
      "bottom_index s1 = bottom_index s" "read_ptr s1 = read_ptr s"
      "length (buffer s1) = length (buffer s)"
      "unat (write_ptr s1) = cell ?b ?t (k + ?n)"
      "\<forall>j < ?n. buffer s1 ! cell ?b ?t (k + j) = chs ! j"
    by auto
  have a1: "allocated s1" and b1: "borders_ok s1"
    using assms(1,2) s1(2-4,6) by (simp_all add: allocated_def borders_ok_def)
  from Push_step [OF a1 b1, of "k + ?n" ch] s1(3,4,7)
  obtain w where w: "Push ch s1 =
      Some (s1\<lparr>buffer := (buffer s1)[unat (write_ptr s1) := ch], write_ptr := w\<rparr>)"
      "unat w = cell ?b ?t (k + ?n + 1)"
    by auto
  let ?s2 = "s1\<lparr>buffer := (buffer s1)[unat (write_ptr s1) := ch], write_ptr := w\<rparr>"
  have run: "Push_all (chs @ [ch]) s = Some ?s2"
    using s1(1) w(1) by (simp add: Push_all_append)
  note tb = top_index_bound [OF assms(1,2)]
  have inside: "cell ?b ?t (k + ?n) < length (buffer s1)"
    using cell_bounds [OF tb(3), of "k + ?n"] tb(1) s1(6) by simp
  have cells: "buffer ?s2 ! cell ?b ?t (k + j) = (chs @ [ch]) ! j" if "j < length (chs @ [ch])" for j
  proof (cases "j < ?n")
    case True
    then have "cell ?b ?t (k + j) \<noteq> cell ?b ?t (k + ?n)"
      using n by (intro cell_distinct) simp_all
    then show ?thesis
      using True s1(7,8) by (simp add: nth_append)
  next
    case False
    with that have "j = ?n"
      by simp
    then show ?thesis
      using inside s1(7) by simp
  qed
  show ?case
    using run s1(2-6) w(2) cells by simp
qed

text \<open>
  Reading from the cell \<open>k + j\<close> up to the write cursor returns the bytes of those cells,
  when fewer bytes were written than the window has cells.
\<close>

lemma Pop_n_cells:
  assumes "allocated s" "borders_ok s"
    and "unat (write_ptr s) = cell (unat (bottom_index s)) (unat (top_index s)) (k + length chs)"
    and "unat (read_ptr s) = cell (unat (bottom_index s)) (unat (top_index s)) (k + j)"
    and "length chs < unat (top_index s) - unat (bottom_index s) + 1"
    and "\<forall>i < length chs.
           buffer s ! cell (unat (bottom_index s)) (unat (top_index s)) (k + i) = chs ! i"
    and "j + m = length chs"
  shows "\<exists>s'. Pop_n m s = Some (drop j chs, s')"
  using assms
proof (induction m arbitrary: s j)
  case 0
  then show ?case
    by simp
next
  case (Suc m)
  let ?b = "unat (bottom_index s)" and ?t = "unat (top_index s)"
  from Suc.prems(7) have j: "j < length chs"
    by simp
  then have "cell ?b ?t (k + j) \<noteq> cell ?b ?t (k + length chs)"
    using Suc.prems(5) by (intro cell_distinct) simp_all
  with Suc.prems(3,4) have ne: "read_ptr s \<noteq> write_ptr s"
    by auto
  from Pop_step [OF Suc.prems(1,2,4) ne]
  obtain r where r: "Pop s = Some (buffer s ! unat (read_ptr s), s\<lparr>read_ptr := r\<rparr>)"
      "unat r = cell ?b ?t (k + j + 1)"
    by auto
  let ?s1 = "s\<lparr>read_ptr := r\<rparr>"
  have first: "buffer s ! unat (read_ptr s) = chs ! j"
    using Suc.prems(4,6) j by simp
  have "\<exists>s'. Pop_n m ?s1 = Some (drop (Suc j) chs, s')"
  proof (rule Suc.IH)
    show "allocated ?s1" "borders_ok ?s1"
      using Suc.prems(1,2) by (simp_all add: allocated_def borders_ok_def)
    show "unat (write_ptr ?s1) =
        cell (unat (bottom_index ?s1)) (unat (top_index ?s1)) (k + length chs)"
      using Suc.prems(3) by simp
    show "unat (read_ptr ?s1) = cell (unat (bottom_index ?s1)) (unat (top_index ?s1)) (k + Suc j)"
      using r(2) by simp
    show "length chs < unat (top_index ?s1) - unat (bottom_index ?s1) + 1"
      using Suc.prems(5) by simp
    show "\<forall>i < length chs.
        buffer ?s1 ! cell (unat (bottom_index ?s1)) (unat (top_index ?s1)) (k + i) = chs ! i"
      using Suc.prems(6) by simp
    show "Suc j + m = length chs"
      using Suc.prems(7) by simp
  qed
  then obtain s' where "Pop_n m ?s1 = Some (drop (Suc j) chs, s')"
    by blast
  then have "Pop_n (Suc m) s = Some (chs ! j # drop (Suc j) chs, s')"
    using r(1) first by simp
  then show ?case
    using j by (simp add: Cons_nth_drop_Suc)
qed

text \<open>
  C1, as the claim states it, fails for \<open>n\<close> equal to the size of the window: the write
  cursor is then back on the read cursor, and \<^verbatim>\<open>Pop\<close> takes the buffer for one with
  nothing to read. On the buffer \<open>drained_window\<close>, whose window has 6 cells, six
  writes followed by six reads return six times the byte 0 and leave the read cursor
  where it was.
\<close>

theorem fifo_full_window_counterexample:
  "allocated drained_window \<and> borders_ok drained_window \<and> cursors_ok drained_window \<and>
   read_ptr drained_window = write_ptr drained_window \<and>
   unat (GetBufferSize drained_window) = 6 \<and>
   (Push_all [0x41, 0x42, 0x43, 0x44, 0x45, 0x46] drained_window \<bind> Pop_n 6) =
     Some ([0, 0, 0, 0, 0, 0],
           drained_window\<lparr>buffer :=
             [0x61, 0x62, 0x63, 0x43, 0x44, 0x45, 0x46, 0x41, 0x42, 0x6A]\<rparr>) \<and>
   map_option fst (Push_all [0x41, 0x42, 0x43, 0x44, 0x45, 0x46] drained_window \<bind> Pop_n 6) \<noteq>
     Some [0x41, 0x42, 0x43, 0x44, 0x45, 0x46]"
  by code_simp

text \<open>
  C1, amended. On an allocated buffer whose window lies inside the block and whose
  cursors are equal and inside the window, \<open>n\<close> writes followed by \<open>n\<close> reads, with \<open>n\<close>
  less than the size of the window (\<^verbatim>\<open>GetBufferSize\<close>, that is
  \<open>top_index - bottom_index + 1\<close>), all have a defined result and the reads return
  the bytes written, in the order they were written.
\<close>

theorem Push_then_Pop_fifo:
  assumes "allocated s" "borders_ok s" "cursors_ok s"
    and "read_ptr s = write_ptr s"
    and "length chs < unat (GetBufferSize s)"
  shows "\<exists>s1 s2. Push_all chs s = Some s1 \<and> Pop_n (length chs) s1 = Some (chs, s2)"
proof -
  let ?b = "unat (bottom_index s)" and ?t = "unat (top_index s)"
  let ?k = "unat (write_ptr s) - ?b"
  from assms(3) have "?b \<le> unat (write_ptr s)" "unat (write_ptr s) \<le> ?t"
    by (simp_all add: cursors_ok_def word_le_nat_alt)
  then have start: "unat (write_ptr s) = cell ?b ?t ?k"
    by (simp add: cell_start)
  from assms(5) have n: "length chs < ?t - ?b + 1"
    by (simp add: unat_GetBufferSize [OF assms(1,2)])
  then have "length chs \<le> ?t - ?b + 1"
    by simp
  from Push_all_cells [OF assms(1,2) start this]
  obtain s1 where s1: "Push_all chs s = Some s1"
      "buffer_size s1 = buffer_size s" "top_index s1 = top_index s"
      "bottom_index s1 = bottom_index s" "read_ptr s1 = read_ptr s"
      "length (buffer s1) = length (buffer s)"
      "unat (write_ptr s1) = cell ?b ?t (?k + length chs)"
      "\<forall>j < length chs. buffer s1 ! cell ?b ?t (?k + j) = chs ! j"
    by auto
  have a1: "allocated s1" and b1: "borders_ok s1"
    using assms(1,2) s1(2-4,6) by (simp_all add: allocated_def borders_ok_def)
  have "\<exists>s2. Pop_n (length chs) s1 = Some (drop 0 chs, s2)"
  proof (rule Pop_n_cells [OF a1 b1, where k = ?k])
    show "unat (write_ptr s1) =
        cell (unat (bottom_index s1)) (unat (top_index s1)) (?k + length chs)"
      using s1(3,4,7) by simp
    show "unat (read_ptr s1) = cell (unat (bottom_index s1)) (unat (top_index s1)) (?k + 0)"
      using s1(3,4,5) start assms(4) by simp
    show "length chs < unat (top_index s1) - unat (bottom_index s1) + 1"
      using n s1(3,4) by simp
    show "\<forall>i < length chs.
        buffer s1 ! cell (unat (bottom_index s1)) (unat (top_index s1)) (?k + i) = chs ! i"
      using s1(3,4,8) by simp
    show "0 + length chs = length chs"
      by simp
  qed
  with s1(1) show ?thesis
    by simp
qed

theorem Push_then_Pop_fifo_witness:
  "allocated drained_window \<and> borders_ok drained_window \<and> cursors_ok drained_window \<and>
   read_ptr drained_window = write_ptr drained_window \<and>
   length [0x41, 0x42, 0x43, 0x44, 0x45 :: byte] < unat (GetBufferSize drained_window) \<and>
   (\<exists>s1 s2. Push_all [0x41, 0x42, 0x43, 0x44, 0x45] drained_window = Some s1 \<and>
      Pop_n (length [0x41, 0x42, 0x43, 0x44, 0x45 :: byte]) s1 =
        Some ([0x41, 0x42, 0x43, 0x44, 0x45], s2))"
proof -
  have a: "allocated drained_window" and b: "borders_ok drained_window"
    and c: "cursors_ok drained_window"
    and e: "read_ptr drained_window = write_ptr drained_window"
    and n: "length [0x41, 0x42, 0x43, 0x44, 0x45 :: byte] < unat (GetBufferSize drained_window)"
    by code_simp+
  show ?thesis
    using a b c e n Push_then_Pop_fifo [OF a b c e n] by blast
qed

subsection \<open>Shifting the borders\<close>

lemma SetTopIndex_OK:
  assumes "allocated s" "borders_ok s" "index \<le> buffer_size s - 1" "bottom_index s \<le> index"
  shows "\<exists>s'. SetTopIndex index s = Some (BUFFER_OK, s') \<and>
           top_index s' = index \<and> bottom_index s' = bottom_index s \<and>
           buffer_size s' = buffer_size s \<and> length (buffer s') = length (buffer s) \<and>
           write_ptr s' = (if index < write_ptr s then bottom_index s else write_ptr s) \<and>
           read_ptr s' = (if index < read_ptr s then bottom_index s else read_ptr s)"
proof -
  have b: "borders_ok (s\<lparr>top_index := index\<rparr>)"
    using assms(3,4) by (simp add: borders_ok_def)
  have a: "allocated (s\<lparr>top_index := index\<rparr>)"
    using assms(1) by (simp add: allocated_def)
  from top_index_bound(1,2) [OF a b]
  have "unat index < length (buffer s)" "unat index < 2 ^ 32 - 1"
    by simp_all
  then obtain m where m: "zero_le_loop (top_index s + 1) index (buffer s) = Some m"
      "length m = length (buffer s)"
    using zero_le_loop_cells by blast
  show ?thesis
    using assms(3,4) m
    by (simp add: SetTopIndex_def Let_def not_less [symmetric])
qed

lemma SetBottomIndex_OK:
  assumes "allocated s" "borders_ok s" "index \<le> buffer_size s - 1" "index \<le> top_index s"
  shows "\<exists>s'. SetBottomIndex index s = Some (BUFFER_OK, s') \<and>
           bottom_index s' = index \<and> top_index s' = top_index s \<and>
           buffer_size s' = buffer_size s \<and> length (buffer s') = length (buffer s) \<and>
           write_ptr s' = (if write_ptr s < index then index else write_ptr s) \<and>
           read_ptr s' = (if read_ptr s < index then index else read_ptr s)"
proof -
  have "unat (bottom_index s - 1) \<le> unat (bottom_index s)" if "index < bottom_index s"
  proof -
    from that have "bottom_index s \<noteq> 0"
      by auto
    then show ?thesis
      by (simp add: unat_minus_one)
  qed
  with top_index_bound [OF assms(1,2)]
  have "unat (bottom_index s - 1) < length (buffer s)"
       "unat (bottom_index s - 1) < 2 ^ 32 - 1" if "index < bottom_index s"
    using that by simp_all
  then have "\<exists>m. zero_le_loop index (bottom_index s - 1) (buffer s) = Some m \<and>
      length m = length (buffer s)" if "index < bottom_index s"
    using that zero_le_loop_cells by blast
  then show ?thesis
    using assms(3,4)
    by (auto simp add: SetBottomIndex_def Let_def not_less [symmetric])
qed

text \<open>
  C5, as the claim states it, fails: \<^verbatim>\<open>SetTopIndex\<close> sends a cursor that is above the new
  top border to the bottom border, not to the top border. On the buffer
  \<open>inner_window\<close> (window on 3 to 8, write cursor on 7), \<^verbatim>\<open>SetTopIndex(5)\<close> succeeds and
  leaves the write cursor on 3.
\<close>

theorem SetTopIndex_nearest_border_counterexample:
  "bottom_index inner_window = 3 \<and> write_ptr inner_window = 7 \<and>
   SetTopIndex 5 inner_window =
     Some (BUFFER_OK, inner_window\<lparr>top_index := 5, write_ptr := 3\<rparr>) \<and>
   write_ptr (inner_window\<lparr>top_index := 5, write_ptr := 3\<rparr>) \<noteq>
     top_index (inner_window\<lparr>top_index := 5, write_ptr := 3\<rparr>)"
  by code_simp

text \<open>
  C5, amended. On an allocated buffer whose window lies inside the block, every call of
  \<^verbatim>\<open>SetTopIndex\<close> with \<open>bottom_index \<le> index \<le> buffer_size - 1\<close> and every call of
  \<^verbatim>\<open>SetBottomIndex\<close> with \<open>index \<le> top_index\<close> and \<open>index \<le> buffer_size - 1\<close> returns
  \<^verbatim>\<open>BUFFER_OK\<close> and moves the border to \<open>index\<close>. \<^verbatim>\<open>SetTopIndex\<close> sends a cursor that is
  above the new top border to the bottom border; \<^verbatim>\<open>SetBottomIndex\<close> sends a cursor that
  is below the new bottom border to the new bottom border; a cursor inside the new
  window stays where it is.
\<close>

theorem border_shift_relocates_cursors:
  assumes "allocated s" "borders_ok s"
  shows "(index \<le> buffer_size s - 1 \<and> bottom_index s \<le> index \<longrightarrow>
          (\<exists>s'. SetTopIndex index s = Some (BUFFER_OK, s') \<and>
             top_index s' = index \<and> bottom_index s' = bottom_index s \<and>
             write_ptr s' = (if index < write_ptr s then bottom_index s else write_ptr s) \<and>
             read_ptr s' = (if index < read_ptr s then bottom_index s else read_ptr s))) \<and>
         (index \<le> buffer_size s - 1 \<and> index \<le> top_index s \<longrightarrow>
          (\<exists>s'. SetBottomIndex index s = Some (BUFFER_OK, s') \<and>
             bottom_index s' = index \<and> top_index s' = top_index s \<and>
             write_ptr s' = (if write_ptr s < index then index else write_ptr s) \<and>
             read_ptr s' = (if read_ptr s < index then index else read_ptr s)))"
  using SetTopIndex_OK [OF assms] SetBottomIndex_OK [OF assms] by blast

theorem border_shift_relocates_cursors_witness:
  "allocated inner_window \<and> borders_ok inner_window \<and>
   (5 :: uint) \<le> buffer_size inner_window - 1 \<and> bottom_index inner_window \<le> 5 \<and>
   5 \<le> top_index inner_window \<and>
   (\<exists>s'. SetTopIndex 5 inner_window = Some (BUFFER_OK, s') \<and>
      top_index s' = 5 \<and> bottom_index s' = 3 \<and> write_ptr s' = 3 \<and> read_ptr s' = 3) \<and>
   (\<exists>s'. SetBottomIndex 5 inner_window = Some (BUFFER_OK, s') \<and>
      bottom_index s' = 5 \<and> top_index s' = 8 \<and> write_ptr s' = 7 \<and> read_ptr s' = 5)"
proof -
  have a: "allocated inner_window" and b: "borders_ok inner_window"
    and h: "(5 :: uint) \<le> buffer_size inner_window - 1" "bottom_index inner_window \<le> 5"
      "5 \<le> top_index inner_window"
    by code_simp+
  have f: "bottom_index inner_window = 3" "top_index inner_window = 8"
    "write_ptr inner_window = 7" "read_ptr inner_window = 3"
    by (simp_all add: inner_window_def)
  show ?thesis
    using a b h border_shift_relocates_cursors [OF a b, of 5] by (simp add: f)
qed

subsection \<open>Reallocation\<close>

text \<open>
  C7. When \<^verbatim>\<open>realloc\<close> returns a null pointer (the size asked for is neither 0 nor the
  current size, so that \<^verbatim>\<open>realloc\<close> is called at all), \<^verbatim>\<open>ReallocBuffer\<close> returns
  \<^verbatim>\<open>BUFFER_ALLOCATION_ERROR\<close> and the state is the one before the call but for the
  cached status: size, borders, cursors and every byte are unchanged.
\<close>

theorem ReallocBuffer_allocation_failure:
  "new_size \<noteq> 0 \<Longrightarrow> new_size \<noteq> buffer_size s \<Longrightarrow>
   ReallocBuffer new_size None s =
     (BUFFER_ALLOCATION_ERROR, s\<lparr>buffer_error_code := BUFFER_ALLOCATION_ERROR\<rparr>)"
  by (simp add: ReallocBuffer_def)

theorem ReallocBuffer_allocation_failure_witness:
  "(32 :: uint) \<noteq> 0 \<and> 32 \<noteq> buffer_size inner_window \<and>
   ReallocBuffer 32 None inner_window =
     (BUFFER_ALLOCATION_ERROR, inner_window\<lparr>buffer_error_code := BUFFER_ALLOCATION_ERROR\<rparr>)"
proof -
  have h1: "(32 :: uint) \<noteq> 0"
    by simp
  have h2: "32 \<noteq> buffer_size inner_window"
    by (simp add: inner_window_def)
  show ?thesis
    using h1 h2 ReallocBuffer_allocation_failure [OF h1 h2] by simp
qed

text \<open>
  C4, as the claim states it, fails: with the size 0 the status returned is
  \<^verbatim>\<open>BUFFER_INCORRECT_SIZE\<close> (7), not \<^verbatim>\<open>BUFFER_INVALID_SIZE\<close> (1), and the cached status
  changes.
\<close>

theorem ReallocBuffer_zero_counterexample:
  "fst (ReallocBuffer 0 None inner_window) \<noteq> BUFFER_INVALID_SIZE \<and>
   snd (ReallocBuffer 0 None inner_window) \<noteq> inner_window"
  by (simp add: ReallocBuffer_def inner_window_def)

text \<open>
  C4, amended. \<^verbatim>\<open>ReallocBuffer\<close> with the size 0 returns \<^verbatim>\<open>BUFFER_INCORRECT_SIZE\<close> and
  changes nothing but the cached status, which becomes \<^verbatim>\<open>BUFFER_INCORRECT_SIZE\<close>; with
  the current size of an allocated buffer it returns \<^verbatim>\<open>BUFFER_OK\<close> and changes nothing
  but the cached status, which becomes \<^verbatim>\<open>BUFFER_OK\<close>. Whether \<^verbatim>\<open>realloc\<close> would succeed
  plays no role: it is not called.
\<close>

theorem ReallocBuffer_zero_or_same_size:
  "ReallocBuffer 0 r s =
     (BUFFER_INCORRECT_SIZE, s\<lparr>buffer_error_code := BUFFER_INCORRECT_SIZE\<rparr>) \<and>
   (buffer_size s \<noteq> 0 \<longrightarrow>
      ReallocBuffer (buffer_size s) r s = (BUFFER_OK, s\<lparr>buffer_error_code := BUFFER_OK\<rparr>))"
  by (simp add: ReallocBuffer_def)

theorem ReallocBuffer_zero_or_same_size_witness:
  "buffer_size inner_window \<noteq> 0 \<and>
   ReallocBuffer 0 None inner_window =
     (BUFFER_INCORRECT_SIZE, inner_window\<lparr>buffer_error_code := BUFFER_INCORRECT_SIZE\<rparr>) \<and>
   ReallocBuffer 10 None inner_window = (BUFFER_OK, inner_window)"
proof -
  have h: "buffer_size inner_window \<noteq> 0"
    by (simp add: inner_window_def)
  have size: "buffer_size inner_window = 10" and code: "buffer_error_code inner_window = BUFFER_OK"
    by (simp_all add: inner_window_def)
  show ?thesis
    using h ReallocBuffer_zero_or_same_size [of None inner_window] code
    by (simp add: size)
qed

subsection \<open>Random access\<close>

lemma SetValueAt_OK_D:
  assumes "SetValueAt i v uo lo s = Some (BUFFER_OK, s')"
  shows "index_t i uo s < buffer_size s"
    and "lo \<or> (index_t i uo s \<le> top_index s \<and> bottom_index s \<le> index_t i uo s)"
    and "unat (index_t i uo s) < length (buffer s)"
    and "s' = s\<lparr>buffer := (buffer s)[unat (index_t i uo s) := v]\<rparr>"
  using assms
  by (auto simp add: SetValueAt_def Let_def store_def not_le not_less split: if_splits)

lemma GetValueAt_after_SetValueAt:
  assumes "SetValueAt i v uo lo s = Some (BUFFER_OK, s')"
  shows "GetValueAt i uo lo s' = Some v"
proof -
  note d = SetValueAt_OK_D [OF assms]
  have same: "index_t i uo s' = index_t i uo s"
    by (simp add: d(4) index_t_def)
  show ?thesis
    using d(1,2,3) unfolding GetValueAt_def same Let_def
    by (auto simp add: d(4) load_def not_le not_less)
qed

lemma beyond_block:
  assumes "buffer_size t \<le> index_t j uo t"
  shows "GetValueAt j uo lo t = Some 0"
    and "SetValueAt j w uo lo t = Some (BUFFER_INDEX_OUT_OF_RANGE, t)"
  using assms by (simp_all add: GetValueAt_def SetValueAt_def)

text \<open>
  C8. Where \<^verbatim>\<open>SetValueAt\<close> succeeds (it returns \<^verbatim>\<open>BUFFER_OK\<close>), \<^verbatim>\<open>GetValueAt\<close> called next
  with the same index and the same two flags returns the value just written. And where
  the translated index \<^verbatim>\<open>index_t\<close>, as the code computes it, is at least \<^verbatim>\<open>buffer_size\<close>,
  \<^verbatim>\<open>GetValueAt\<close> returns the byte 0 and \<^verbatim>\<open>SetValueAt\<close> returns
  \<^verbatim>\<open>BUFFER_INDEX_OUT_OF_RANGE\<close>, leaving the state as it was.
\<close>

theorem SetValueAt_GetValueAt:
  "(SetValueAt i v uo lo s = Some (BUFFER_OK, s') \<longrightarrow> GetValueAt i uo lo s' = Some v) \<and>
   (buffer_size t \<le> index_t j uo' t \<longrightarrow>
      GetValueAt j uo' lo' t = Some 0 \<and>
      SetValueAt j w uo' lo' t = Some (BUFFER_INDEX_OUT_OF_RANGE, t))"
  using GetValueAt_after_SetValueAt beyond_block by blast

theorem SetValueAt_GetValueAt_witness:
  "SetValueAt 1 0x58 True False inner_window = Some (BUFFER_OK, patched_window) \<and>
   GetValueAt 1 True False patched_window = Some 0x58 \<and>
   buffer_size inner_window \<le> index_t 7 True inner_window \<and>
   GetValueAt 7 True False inner_window = Some 0 \<and>
   SetValueAt 7 0x58 True False inner_window = Some (BUFFER_INDEX_OUT_OF_RANGE, inner_window)"
proof -
  have h1: "SetValueAt 1 0x58 True False inner_window = Some (BUFFER_OK, patched_window)"
    by code_simp
  have h2: "buffer_size inner_window \<le> index_t 7 True inner_window"
    by code_simp
  show ?thesis
    using h1 h2
      SetValueAt_GetValueAt [of 1 "0x58" True False inner_window patched_window
        inner_window 7 True False "0x58"]
    by blast
qed

lemma unat_index_t_offset:
  "unat (index_t index True s) = (unat index + unat (bottom_index s)) mod 2 ^ 32"
  by (simp add: index_t_def unat_word_ariths)

text \<open>
  Inside the block and with \<^verbatim>\<open>look_outside_borders\<close> set, \<^verbatim>\<open>SetValueAt\<close> stores the value
  on the translated index, whatever the value is.
\<close>

lemma SetValueAt_inside_block:
  assumes "index_t i uo s < buffer_size s" "unat (index_t i uo s) < length (buffer s)"
  shows "SetValueAt i v uo True s =
           Some (BUFFER_OK, s\<lparr>buffer := (buffer s)[unat (index_t i uo s) := v]\<rparr>)"
  using assms by (simp add: SetValueAt_def Let_def store_def not_le [symmetric])

text \<open>
  C10. With \<^verbatim>\<open>use_offset\<close> set, \<^verbatim>\<open>index_t\<close> is \<open>index + bottom_index\<close> modulo \<open>2^32\<close>. So
  there is a well-formed state with \<open>bottom_index > 0\<close> and an index that is at least
  \<^verbatim>\<open>buffer_size\<close>, for which \<open>index + bottom_index\<close> reaches \<open>2^32\<close> and the translation
  wraps around to a position inside the block. There \<^verbatim>\<open>GetValueAt\<close> returns the byte
  stored on that position (not 0), and for every value \<open>v\<close>, \<^verbatim>\<open>SetValueAt\<close> returns
  \<^verbatim>\<open>BUFFER_OK\<close> and stores \<open>v\<close> on that position, where the next \<^verbatim>\<open>GetValueAt\<close> reads it
  back. (The state is the one of \<open>inner_window\<close>, the index is \<open>2^32 - 2\<close> and
  \<^verbatim>\<open>look_outside_borders\<close> is set: the translated index is 1.)
\<close>

theorem index_t_wraps_around:
  "(\<forall>index s. unat (index_t index True s) = (unat index + unat (bottom_index s)) mod 2 ^ 32) \<and>
   (\<exists>s index.
      allocated s \<and> borders_ok s \<and> cursors_ok s \<and>
      0 < bottom_index s \<and> buffer_size s \<le> index \<and>
      2 ^ 32 \<le> unat index + unat (bottom_index s) \<and>
      index_t index True s < buffer_size s \<and>
      GetValueAt index True True s = Some (buffer s ! unat (index_t index True s)) \<and>
      buffer s ! unat (index_t index True s) \<noteq> 0 \<and>
      (\<forall>v. SetValueAt index v True True s =
              Some (BUFFER_OK, s\<lparr>buffer := (buffer s)[unat (index_t index True s) := v]\<rparr>) \<and>
           (buffer s)[unat (index_t index True s) := v] ! unat (index_t index True s) = v \<and>
           GetValueAt index True True
             (s\<lparr>buffer := (buffer s)[unat (index_t index True s) := v]\<rparr>) = Some v))"
proof (intro conjI allI)
  fix index s
  show "unat (index_t index True s) = (unat index + unat (bottom_index s)) mod 2 ^ 32"
    by (rule unat_index_t_offset)
next
  let ?s = inner_window and ?i = "0xFFFFFFFE :: uint"
  have wrap: "2 ^ 32 \<le> unat ?i + unat (bottom_index ?s)"
    by (simp add: inner_window_def)
  have closed: "allocated ?s \<and> borders_ok ?s \<and> cursors_ok ?s \<and>
      0 < bottom_index ?s \<and> buffer_size ?s \<le> ?i \<and>
      index_t ?i True ?s < buffer_size ?s \<and>
      GetValueAt ?i True True ?s = Some (buffer ?s ! unat (index_t ?i True ?s)) \<and>
      buffer ?s ! unat (index_t ?i True ?s) \<noteq> 0"
    by code_simp
  have inside: "index_t ?i True ?s < buffer_size ?s" "unat (index_t ?i True ?s) < length (buffer ?s)"
    by code_simp+
  have stored: "SetValueAt ?i v True True ?s =
              Some (BUFFER_OK, ?s\<lparr>buffer := (buffer ?s)[unat (index_t ?i True ?s) := v]\<rparr>) \<and>
           (buffer ?s)[unat (index_t ?i True ?s) := v] ! unat (index_t ?i True ?s) = v \<and>
           GetValueAt ?i True True
             (?s\<lparr>buffer := (buffer ?s)[unat (index_t ?i True ?s) := v]\<rparr>) = Some v" for v
  proof -
    have set: "SetValueAt ?i v True True ?s =
        Some (BUFFER_OK, ?s\<lparr>buffer := (buffer ?s)[unat (index_t ?i True ?s) := v]\<rparr>)"
      by (rule SetValueAt_inside_block [OF inside])
    from GetValueAt_after_SetValueAt [OF set] set inside(2) show ?thesis
      by simp
  qed
  from closed wrap stored have "allocated ?s \<and> borders_ok ?s \<and> cursors_ok ?s \<and>
      0 < bottom_index ?s \<and> buffer_size ?s \<le> ?i \<and>
      2 ^ 32 \<le> unat ?i + unat (bottom_index ?s) \<and>
      index_t ?i True ?s < buffer_size ?s \<and>
      GetValueAt ?i True True ?s = Some (buffer ?s ! unat (index_t ?i True ?s)) \<and>
      buffer ?s ! unat (index_t ?i True ?s) \<noteq> 0 \<and>
      (\<forall>v. SetValueAt ?i v True True ?s =
              Some (BUFFER_OK, ?s\<lparr>buffer := (buffer ?s)[unat (index_t ?i True ?s) := v]\<rparr>) \<and>
           (buffer ?s)[unat (index_t ?i True ?s) := v] ! unat (index_t ?i True ?s) = v \<and>
           GetValueAt ?i True True
             (?s\<lparr>buffer := (buffer ?s)[unat (index_t ?i True ?s) := v]\<rparr>) = Some v)"
    by simp
  then show "\<exists>s index.
      allocated s \<and> borders_ok s \<and> cursors_ok s \<and>
      0 < bottom_index s \<and> buffer_size s \<le> index \<and>
      2 ^ 32 \<le> unat index + unat (bottom_index s) \<and>
      index_t index True s < buffer_size s \<and>
      GetValueAt index True True s = Some (buffer s ! unat (index_t index True s)) \<and>
      buffer s ! unat (index_t index True s) \<noteq> 0 \<and>
      (\<forall>v. SetValueAt index v True True s =
              Some (BUFFER_OK, s\<lparr>buffer := (buffer s)[unat (index_t index True s) := v]\<rparr>) \<and>
           (buffer s)[unat (index_t index True s) := v] ! unat (index_t index True s) = v \<and>
           GetValueAt index True True
             (s\<lparr>buffer := (buffer s)[unat (index_t index True s) := v]\<rparr>) = Some v)"
    by (intro exI)
qed

subsection \<open>The cached status\<close>

text \<open>No branch of \<^verbatim>\<open>SetValueAt\<close> writes the cached status.\<close>

lemma SetValueAt_buffer_error_code:
  "SetValueAt i v uo lo s = Some (e, s') \<Longrightarrow> buffer_error_code s' = buffer_error_code s"
  by (auto simp add: SetValueAt_def Let_def store_def split: if_splits)

text \<open>
  C6 asks that the status an operation returns is also the cached one afterwards. The
  code does not do that in \<^verbatim>\<open>SetValueAt\<close>: on the buffer \<open>inner_window\<close>, whose cached
  status is \<^verbatim>\<open>BUFFER_OK\<close>, the call \<^verbatim>\<open>SetValueAt(7, 'X')\<close> returns
  \<^verbatim>\<open>BUFFER_INDEX_OUT_OF_RANGE\<close> and the cached status is still \<^verbatim>\<open>BUFFER_OK\<close>.
\<close>

theorem SetValueAt_status_not_cached:
  "SetValueAt 7 0x58 True False inner_window = Some (BUFFER_INDEX_OUT_OF_RANGE, inner_window) \<and>
   buffer_error_code inner_window = BUFFER_OK"
  by code_simp

subsection \<open>Construction\<close>

text \<open>
  \<^verbatim>\<open>ClearBuffer\<close> zeroes the cells from \<^verbatim>\<open>bottom_index\<close> up to, but not including,
  \<^verbatim>\<open>top_index\<close>.
\<close>

lemma ClearBuffer_cells:
  assumes "allocated s" "borders_ok s"
  shows "\<exists>m. ClearBuffer s = Some (s\<lparr>buffer := m\<rparr>) \<and> length m = length (buffer s) \<and>
           (\<forall>k < length (buffer s).
              m ! k = (if unat (bottom_index s) \<le> k \<and> k < unat (top_index s)
                       then 0 else buffer s ! k))"
proof -
  from top_index_bound(1) [OF assms] have "unat (top_index s) \<le> length (buffer s)"
    by simp
  from zero_lt_loop_cells [OF this, of "bottom_index s"]
  obtain m where m: "zero_lt_loop (bottom_index s) (top_index s) (buffer s) = Some m"
      "length m = length (buffer s)"
      "\<forall>k < length (buffer s).
         m ! k = (if unat (bottom_index s) \<le> k \<and> k < unat (top_index s)
                  then 0 else buffer s ! k)"
    by blast
  from m(1) have "ClearBuffer s = Some (s\<lparr>buffer := m\<rparr>)"
    by (simp add: ClearBuffer_def)
  with m(2,3) show ?thesis
    by blast
qed

text \<open>
  What the constructor does for every size but 0, when the allocation succeeds: the
  object is well formed, with the window on the whole block and both cursors on 0; the
  bytes before the last are 0, and the last byte is the one that was in the new block.
\<close>

lemma ctor_result:
  assumes "buf_size \<noteq> 0"
  shows "\<exists>s. CyclicBuffer_ctor buf_size success (Some fresh) = Some (success, Some s) \<and>
           well_formed s \<and> buffer_error_code s = BUFFER_UNDEFINED_ERROR \<and>
           buffer_size s = buf_size \<and> bottom_index s = 0 \<and> top_index s = buf_size - 1 \<and>
           write_ptr s = 0 \<and> read_ptr s = 0 \<and>
           (\<forall>k < unat buf_size. buffer s ! k = (if k < unat buf_size - 1 then 0 else fresh k))"
proof -
  let ?s0 = "\<lparr>buffer_error_code = BUFFER_UNDEFINED_ERROR,
              buffer = map fresh [0 ..< unat buf_size],
              buffer_size = buf_size, top_index = buf_size - 1, bottom_index = 0,
              write_ptr = 0, read_ptr = 0\<rparr>"
  have a: "allocated ?s0" and b: "borders_ok ?s0"
    using assms by (simp_all add: allocated_def borders_ok_def)
  from ClearBuffer_cells [OF a b]
  obtain m where m: "ClearBuffer ?s0 = Some (?s0\<lparr>buffer := m\<rparr>)"
      "length m = unat buf_size"
      "\<forall>k < unat buf_size. m ! k = (if k < unat (buf_size - 1) then 0 else fresh k)"
    by auto
  from assms have top: "unat (buf_size - 1) = unat buf_size - 1"
    by (simp add: unat_minus_one)
  let ?s = "?s0\<lparr>buffer := m, write_ptr := 0, read_ptr := 0\<rparr>"
  have "CyclicBuffer_ctor buf_size success (Some fresh) = Some (success, Some ?s)"
    using assms m(1) by (simp add: CyclicBuffer_ctor_def)
  moreover have "well_formed ?s"
    using assms m(2)
    by (simp add: well_formed_def allocated_def borders_ok_def cursors_ok_def)
  ultimately show ?thesis
    using m(3) top by auto
qed

text \<open>
  C3 asks that the constructor zeroes every byte of the window, the one on the index
  \<open>c - 1\<close> included. The loop of \<^verbatim>\<open>ClearBuffer\<close> stops before \<^verbatim>\<open>top_index\<close>: constructed
  with the size 4 on a block whose bytes are all 255, the buffer keeps 255 in its last
  byte. The borders and cursors are as the claim says; \<^verbatim>\<open>success\<close> is not written and
  the cached status stays \<^verbatim>\<open>BUFFER_UNDEFINED_ERROR\<close>.
\<close>

theorem ctor_last_byte_not_cleared:
  "CyclicBuffer_ctor 4 0 (Some (\<lambda>_. 0xFF)) =
     Some (0, Some \<lparr>buffer_error_code = BUFFER_UNDEFINED_ERROR,
                    buffer = [0, 0, 0, 0xFF],
                    buffer_size = 4, top_index = 3, bottom_index = 0,
                    write_ptr = 0, read_ptr = 0\<rparr>)"
  by code_simp

subsection \<open>The cursors and the window\<close>

text \<open>
  Every operation but \<^verbatim>\<open>ReallocBuffer\<close> has a defined result on a well-formed buffer
  and leaves it well formed: allocated, with the window inside the block and both
  cursors inside the window.
\<close>

lemma Push_well_formed:
  assumes "well_formed s"
  shows "\<exists>s'. Push ch s = Some s' \<and> well_formed s'"
proof -
  from assms have a: "allocated s" and b: "borders_ok s" and c: "cursors_ok s"
    by (simp_all add: well_formed_def)
  let ?b = "unat (bottom_index s)" and ?t = "unat (top_index s)"
  from c have "?b \<le> unat (write_ptr s)" "unat (write_ptr s) \<le> ?t"
    by (simp_all add: cursors_ok_def word_le_nat_alt)
  then have "unat (write_ptr s) = cell ?b ?t (unat (write_ptr s) - ?b)"
    by (simp add: cell_start)
  from Push_step [OF a b this, of ch]
  obtain w where w: "Push ch s =
      Some (s\<lparr>buffer := (buffer s)[unat (write_ptr s) := ch], write_ptr := w\<rparr>)"
      "unat w = cell ?b ?t (unat (write_ptr s) - ?b + 1)"
    by auto
  from cell_bounds [OF top_index_bound(3) [OF a b]] w(2)
  have "?b \<le> unat w" "unat w \<le> ?t"
    by simp_all
  then have "well_formed (s\<lparr>buffer := (buffer s)[unat (write_ptr s) := ch], write_ptr := w\<rparr>)"
    using a b c
    by (simp add: well_formed_def allocated_def borders_ok_def cursors_ok_def word_le_nat_alt)
  with w(1) show ?thesis
    by simp
qed

lemma Pop_well_formed:
  assumes "well_formed s"
  shows "\<exists>v s'. Pop s = Some (v, s') \<and> well_formed s'"
proof (cases "read_ptr s = write_ptr s")
  case True
  with assms show ?thesis
    by (simp add: Pop_def)
next
  case False
  from assms have a: "allocated s" and b: "borders_ok s" and c: "cursors_ok s"
    by (simp_all add: well_formed_def)
  let ?b = "unat (bottom_index s)" and ?t = "unat (top_index s)"
  from c have "?b \<le> unat (read_ptr s)" "unat (read_ptr s) \<le> ?t"
    by (simp_all add: cursors_ok_def word_le_nat_alt)
  then have "unat (read_ptr s) = cell ?b ?t (unat (read_ptr s) - ?b)"
    by (simp add: cell_start)
  from Pop_step [OF a b this False]
  obtain r where r: "Pop s = Some (buffer s ! unat (read_ptr s), s\<lparr>read_ptr := r\<rparr>)"
      "unat r = cell ?b ?t (unat (read_ptr s) - ?b + 1)"
    by auto
  from cell_bounds [OF top_index_bound(3) [OF a b]] r(2)
  have "?b \<le> unat r" "unat r \<le> ?t"
    by simp_all
  then have "well_formed (s\<lparr>read_ptr := r\<rparr>)"
    using a b c
    by (simp add: well_formed_def allocated_def borders_ok_def cursors_ok_def word_le_nat_alt)
  with r(1) show ?thesis
    by simp
qed

lemma SetPopIndex_well_formed:
  "well_formed s \<Longrightarrow> well_formed (snd (SetPopIndex index s))"
  by (auto simp add: SetPopIndex_def well_formed_def allocated_def borders_ok_def cursors_ok_def)

lemma SetPushIndex_well_formed:
  "well_formed s \<Longrightarrow> well_formed (snd (SetPushIndex index s))"
  by (auto simp add: SetPushIndex_def well_formed_def allocated_def borders_ok_def cursors_ok_def)

lemma SetTopIndex_well_formed:
  assumes "well_formed s"
  shows "\<exists>e s'. SetTopIndex index s = Some (e, s') \<and> well_formed s'"
proof -
  from assms have a: "allocated s" and b: "borders_ok s" and c: "cursors_ok s"
    by (simp_all add: well_formed_def)
  consider "buffer_size s - 1 < index" | "index \<le> buffer_size s - 1" "index < bottom_index s"
    | "index \<le> buffer_size s - 1" "bottom_index s \<le> index"
    by fastforce
  then show ?thesis
  proof cases
    case 1
    with assms show ?thesis
      by (simp add: SetTopIndex_def well_formed_def allocated_def borders_ok_def cursors_ok_def)
  next
    case 2
    with assms show ?thesis
      by (simp add: SetTopIndex_def well_formed_def allocated_def borders_ok_def cursors_ok_def
          not_less [symmetric])
  next
    case 3
    from SetTopIndex_OK [OF a b 3]
    obtain s' where s': "SetTopIndex index s = Some (BUFFER_OK, s')"
        "top_index s' = index" "bottom_index s' = bottom_index s"
        "buffer_size s' = buffer_size s" "length (buffer s') = length (buffer s)"
        "write_ptr s' = (if index < write_ptr s then bottom_index s else write_ptr s)"
        "read_ptr s' = (if index < read_ptr s then bottom_index s else read_ptr s)"
      by blast
    have "well_formed s'"
      using a c 3 s'(2-7)
      by (auto simp add: well_formed_def allocated_def borders_ok_def cursors_ok_def)
    with s'(1) show ?thesis
      by simp
  qed
qed

lemma SetBottomIndex_well_formed:
  assumes "well_formed s"
  shows "\<exists>e s'. SetBottomIndex index s = Some (e, s') \<and> well_formed s'"
proof -
  from assms have a: "allocated s" and b: "borders_ok s" and c: "cursors_ok s"
    by (simp_all add: well_formed_def)
  consider "buffer_size s - 1 < index" | "index \<le> buffer_size s - 1" "top_index s < index"
    | "index \<le> buffer_size s - 1" "index \<le> top_index s"
    by fastforce
  then show ?thesis
  proof cases
    case 1
    with assms show ?thesis
      by (simp add: SetBottomIndex_def well_formed_def allocated_def borders_ok_def
          cursors_ok_def)
  next
    case 2
    with assms show ?thesis
      by (simp add: SetBottomIndex_def well_formed_def allocated_def borders_ok_def
          cursors_ok_def not_less [symmetric])
  next
    case 3
    from SetBottomIndex_OK [OF a b 3]
    obtain s' where s': "SetBottomIndex index s = Some (BUFFER_OK, s')"
        "bottom_index s' = index" "top_index s' = top_index s"
        "buffer_size s' = buffer_size s" "length (buffer s') = length (buffer s)"
        "write_ptr s' = (if write_ptr s < index then index else write_ptr s)"
        "read_ptr s' = (if read_ptr s < index then index else read_ptr s)"
      by blast
    have "well_formed s'"
      using a b c 3 s'(2-7)
      by (auto simp add: well_formed_def allocated_def borders_ok_def cursors_ok_def)
    with s'(1) show ?thesis
      by simp
  qed
qed

lemma ResetBuffer_well_formed:
  assumes "allocated s"
  shows "\<exists>s'. ResetBuffer s = Some s' \<and> well_formed s' \<and>
           (\<forall>k < length (buffer s'). buffer s' ! k = 0)"
proof -
  let ?s1 = "s\<lparr>top_index := buffer_size s - 1, read_ptr := 0, write_ptr := 0, bottom_index := 0\<rparr>"
  have a: "allocated ?s1" and b: "borders_ok ?s1"
    using assms by (simp_all add: allocated_def borders_ok_def)
  from top_index_bound(1,2) [OF a b]
  have "unat (buffer_size s - 1) < length (buffer s)" "unat (buffer_size s - 1) < 2 ^ 32 - 1"
    by simp_all
  from zero_le_loop_cells [OF this, of 0]
  obtain m where m: "zero_le_loop 0 (buffer_size s - 1) (buffer s) = Some m"
      "length m = length (buffer s)"
      "\<forall>k < length (buffer s). m ! k = (if k \<le> unat (buffer_size s - 1) then 0 else buffer s ! k)"
    by auto
  from assms have "unat (buffer_size s - 1) = length (buffer s) - 1"
    by (simp add: allocated_def unat_minus_one)
  with m(3) have zero: "\<forall>k < length (buffer s). m ! k = 0"
    by auto
  have "ResetBuffer s = Some (?s1\<lparr>buffer := m\<rparr>)"
    using m(1) by (simp add: ResetBuffer_def Let_def)
  moreover have "well_formed (?s1\<lparr>buffer := m\<rparr>)"
    using assms m(2) by (simp add: well_formed_def allocated_def borders_ok_def cursors_ok_def)
  ultimately show ?thesis
    using zero m(2) by simp
qed

lemma ClearBuffer_well_formed:
  assumes "well_formed s"
  shows "\<exists>s'. ClearBuffer s = Some s' \<and> well_formed s'"
proof -
  from assms have a: "allocated s" and b: "borders_ok s" and c: "cursors_ok s"
    by (simp_all add: well_formed_def)
  from ClearBuffer_cells [OF a b]
  obtain m where m: "ClearBuffer s = Some (s\<lparr>buffer := m\<rparr>)" "length m = length (buffer s)"
    by blast
  have "well_formed (s\<lparr>buffer := m\<rparr>)"
    using a b c m(2) by (simp add: well_formed_def allocated_def borders_ok_def cursors_ok_def)
  with m(1) show ?thesis
    by simp
qed

lemma GetValueAt_defined:
  assumes "allocated s"
  shows "\<exists>v. GetValueAt index use_offset look_outside_borders s = Some v"
  using assms
  by (simp add: GetValueAt_def Let_def load_def allocated_def word_less_nat_alt not_le)

lemma SetValueAt_well_formed:
  assumes "well_formed s"
  shows "\<exists>e s'. SetValueAt index v use_offset look_outside_borders s = Some (e, s') \<and>
           well_formed s'"
  using assms
  by (simp add: SetValueAt_def Let_def store_def well_formed_def allocated_def borders_ok_def
      cursors_ok_def word_less_nat_alt not_le)

text \<open>
  \<^verbatim>\<open>ReallocBuffer\<close> keeps the buffer allocated, the window inside the block and the read
  cursor inside the window.
\<close>

lemma length_realloc_block: "length (realloc_block m n fresh) = n"
  by (simp add: realloc_block_def)

lemma ReallocBuffer_keeps_window_and_read_ptr:
  assumes "well_formed s"
  shows "allocated (snd (ReallocBuffer new_size r s))"
    and "borders_ok (snd (ReallocBuffer new_size r s))"
    and "bottom_index (snd (ReallocBuffer new_size r s)) \<le> read_ptr (snd (ReallocBuffer new_size r s))"
    and "read_ptr (snd (ReallocBuffer new_size r s)) \<le> top_index (snd (ReallocBuffer new_size r s))"
  using assms
  by (auto simp add: ReallocBuffer_def Let_def well_formed_def allocated_def borders_ok_def
      cursors_ok_def length_realloc_block split: option.splits)

text \<open>
  The buffer \<open>inner_window\<close> is one that calls of the public operations produce:
  construction with the size 10, ten writes, then \<^verbatim>\<open>SetBottomIndex(3)\<close>,
  \<^verbatim>\<open>SetTopIndex(8)\<close> and \<^verbatim>\<open>SetPushIndex(7)\<close>.
\<close>

lemma inner_window_reachable:
  "(case CyclicBuffer_ctor 10 0 (Some (\<lambda>_. 0xFF)) of
      Some (_, Some s0) \<Rightarrow>
        do {
          s1 \<leftarrow> Push_all [0x61, 0x62, 0x63, 0x64, 0x65, 0x66, 0x67, 0x68, 0x69, 0x6A] s0;
          (_, s2) \<leftarrow> SetBottomIndex 3 s1;
          (_, s3) \<leftarrow> SetTopIndex 8 s2;
          Some (snd (SetPushIndex 7 s3))
        }
    | _ \<Rightarrow> None) = Some inner_window"
  by code_simp

text \<open>
  C2 asks that both cursors lie inside the window after every operation, after
  \<^verbatim>\<open>ReallocBuffer\<close> in particular. On the buffer \<open>inner_window\<close>, which is well formed
  and has both cursors inside its window, \<^verbatim>\<open>ReallocBuffer(5)\<close> clamps the window to the
  indices 3 to 4 and sets \<^verbatim>\<open>write_ptr\<close> to 0, below \<^verbatim>\<open>bottom_index\<close>.
\<close>

theorem ReallocBuffer_write_ptr_below_window:
  "allocated inner_window \<and> borders_ok inner_window \<and> cursors_ok inner_window \<and>
   ReallocBuffer 5 (Some (\<lambda>_. 0)) inner_window =
     (BUFFER_OK,
      \<lparr>buffer_error_code = BUFFER_OK, buffer = [0x61, 0x62, 0x63, 0x64, 0x65],
       buffer_size = 5, top_index = 4, bottom_index = 3, write_ptr = 0, read_ptr = 3\<rparr>) \<and>
   \<not> cursors_ok (snd (ReallocBuffer 5 (Some (\<lambda>_. 0)) inner_window))"
  by code_simp

end
